theory Spec2Isabelle
  imports Main "HOL-Library.Word"
begin

unbundle bit_operations_syntax

section \<open>Data model of \<open>sdl_backend.cpp\<close>\<close>

text \<open>
  The frame handoff of \<open>sdl_backend.cpp\<close> works on file-level state: two render buffers
  (\<open>static Uint32 render_buffers[2][240*256]\<close>), the two pointers \<open>back_buffer\<close> and
  \<open>front_buffer\<close> into them, and the flags \<open>ready_to_draw_new_frame\<close>,
  \<open>frame_available\<close> and \<open>pending_sdl_thread_exit\<close>.

  A pointer to one of the two buffers is a \<open>buf_id\<close>; the memory of the buffers is an
  explicit store from buffer and cell index to pixel, so that swapping the pointers and
  writing through them are separate things. The cells of a buffer are the indices below
  \<open>240 * 256\<close>; \<open>put_pixel\<close> never writes another one (its assertions).
\<close>

type_synonym u8 = "8 word"
type_synonym u32 = "32 word"

datatype buf_id = Buf0 | Buf1

record video =
  render_buffers :: "buf_id \<Rightarrow> nat \<Rightarrow> u32"
  back_buffer :: buf_id
  front_buffer :: buf_id
  ready_to_draw_new_frame :: bool
  frame_available :: bool
  pending_sdl_thread_exit :: bool

text \<open>
  The state after \<open>init_sdl\<close>: statics are zero-initialised, \<open>back_buffer =
  render_buffers[0]\<close> and \<open>front_buffer = render_buffers[1]\<close>.
\<close>

definition init_video :: video where
  "init_video =
     \<lparr>render_buffers = (\<lambda>_ _. 0), back_buffer = Buf0, front_buffer = Buf1,
      ready_to_draw_new_frame = False, frame_available = False,
      pending_sdl_thread_exit = False\<rparr>"

subsection \<open>Calls to SDL and stores to shared variables, in program order\<close>

text \<open>
  Each function returns, next to the new state, the list of the synchronisation calls it
  made and of the shared variables it stored to, in the order of the source text. A
  property "under the lock" is a property of that list.
\<close>

datatype mutex = frame_lock | event_lock

datatype cond = frame_available_cond

datatype var =
    V_frame_available | V_ready_to_draw_new_frame | V_back_buffer | V_front_buffer
  | V_pending_sdl_thread_exit | V_keys_lf | V_show_debugger | V_corrupt_chance

datatype event =
    LockMutex mutex
  | UnlockMutex mutex
  | CondSignal cond
  | CondWait cond mutex
  | Store var
  | Call string

type_synonym 's stmt = "'s \<Rightarrow> 's \<times> event list"

fun block :: "'s stmt list \<Rightarrow> 's stmt" where
  "block [] s = (s, [])"
| "block (c # cs) s =
     (case c s of (s1, t1) \<Rightarrow> (case block cs s1 of (s2, t2) \<Rightarrow> (s2, t1 @ t2)))"

definition if_then :: "('s \<Rightarrow> bool) \<Rightarrow> 's stmt \<Rightarrow> 's stmt" where
  "if_then b c s = (if b s then c s else (s, []))"

definition SDL_LockMutex :: "mutex \<Rightarrow> 's stmt" where
  "SDL_LockMutex m s = (s, [LockMutex m])"

definition SDL_UnlockMutex :: "mutex \<Rightarrow> 's stmt" where
  "SDL_UnlockMutex m s = (s, [UnlockMutex m])"

definition SDL_CondSignal :: "cond \<Rightarrow> 's stmt" where
  "SDL_CondSignal c s = (s, [CondSignal c])"

definition call :: "string \<Rightarrow> 's stmt" where
  "call f s = (s, [Call f])"

text \<open>
  The events of a list that happen while mutex \<open>m\<close> is not held by the thread that
  made them (\<open>held\<close> says whether it is at the start). A list all of whose events are under
  the lock gives \<open>[]\<close>. \<open>SDL_CondWait\<close> returns with the mutex held again.
\<close>

fun unprotected :: "mutex \<Rightarrow> bool \<Rightarrow> event list \<Rightarrow> event list" where
  "unprotected m held [] = []"
| "unprotected m held (e # es) =
     (if e = LockMutex m then unprotected m True es
      else if e = UnlockMutex m then unprotected m False es
      else if held then unprotected m held es
      else e # unprotected m held es)"

fun holds :: "mutex \<Rightarrow> bool \<Rightarrow> event list \<Rightarrow> bool" where
  "holds m held [] = held"
| "holds m held (e # es) =
     (if e = LockMutex m then holds m True es
      else if e = UnlockMutex m then holds m False es
      else holds m held es)"

section \<open>Video: \<open>put_pixel\<close> and \<open>draw_frame\<close>\<close>

text \<open>
  \<^verbatim>\<open>
  void put_pixel(unsigned x, unsigned y, uint32_t color) {
      assert(x < 256);
      assert(y < 240);
      back_buffer[256*y + x] = color;
  }
  \<close>
  A failed assertion aborts the process: the result is \<open>Inl AssertionFailed\<close>
  (assertions are compiled in unless \<open>NDEBUG\<close> is defined). The index is computed in
  \<open>unsigned\<close> arithmetic.
\<close>

datatype fatal = AssertionFailed

definition put_pixel :: "u32 \<Rightarrow> u32 \<Rightarrow> u32 \<Rightarrow> video \<Rightarrow> fatal + video" where
  "put_pixel x y color s =
     (if \<not> x < 256 then Inl AssertionFailed
      else if \<not> y < 240 then Inl AssertionFailed
      else Inr (s\<lparr>render_buffers :=
                  (render_buffers s)(back_buffer s :=
                     (render_buffers s (back_buffer s))(unat (256 * y + x) := color))\<rparr>))"

text \<open>
  \<^verbatim>\<open>
  void draw_frame() {
      SDL_LockMutex(frame_lock);
      if (ready_to_draw_new_frame) {
          frame_available = true;
          swap(back_buffer, front_buffer);
          SDL_CondSignal(frame_available_cond);
      }
      SDL_UnlockMutex(frame_lock);
  }
  \<close>
  (\<open>add_movie_video_frame\<close>, compiled in only under \<open>RECORD_MOVIE\<close>, reads the back buffer
  and is left out.)
\<close>

definition set_frame_available :: "bool \<Rightarrow> video stmt" where
  "set_frame_available b s = (s\<lparr>frame_available := b\<rparr>, [Store V_frame_available])"

definition set_ready_to_draw_new_frame :: "bool \<Rightarrow> video stmt" where
  "set_ready_to_draw_new_frame b s =
     (s\<lparr>ready_to_draw_new_frame := b\<rparr>, [Store V_ready_to_draw_new_frame])"

definition swap_buffers :: "video stmt" where
  "swap_buffers s =
     (s\<lparr>back_buffer := front_buffer s, front_buffer := back_buffer s\<rparr>,
      [Store V_back_buffer, Store V_front_buffer])"

definition draw_frame :: "video stmt" where
  "draw_frame =
     block
       [SDL_LockMutex frame_lock,
        if_then ready_to_draw_new_frame
          (block
             [set_frame_available True,
              swap_buffers,
              SDL_CondSignal frame_available_cond]),
        SDL_UnlockMutex frame_lock]"

section \<open>The SDL thread: waiting for a frame, and \<open>exit_sdl_thread\<close>\<close>

text \<open>
  The head of the loop of \<open>sdl_thread\<close>:
  \<^verbatim>\<open>
  SDL_LockMutex(frame_lock);
  ready_to_draw_new_frame = true;
  while (!frame_available && !pending_sdl_thread_exit)
      SDL_CondWait(frame_available_cond, frame_lock);
  if (pending_sdl_thread_exit) {
      SDL_UnlockMutex(frame_lock);
      return;
  }
  frame_available = ready_to_draw_new_frame = false;
  SDL_UnlockMutex(frame_lock);
  ...
  SDL_UpdateTexture(screen_tex, &screentex_valid, front_buffer, 256*sizeof(Uint32))
  \<close>
  \<open>SDL_CondWait\<close> gives the mutex up while the thread sleeps, so the other threads run
  there. The thread therefore runs in pieces, each one under the mutex: from the top of the
  loop to the first \<open>SDL_CondWait\<close> or past the loop (\<open>sdl_thread_enter\<close>), and from
  a wake-up inside \<open>SDL_CondWait\<close> to the next \<open>SDL_CondWait\<close> or past the loop
  (\<open>sdl_thread_wake\<close>); \<open>wait_test\<close> is the loop test and what follows it. A
  piece ends \<open>Blocked\<close> in \<open>SDL_CondWait\<close>, with
  \<open>ThreadExit\<close> at the \<open>return\<close>, or with \<open>Frame b\<close>, where \<open>b\<close> is the
  \<open>front_buffer\<close> that the thread goes on to upload.
\<close>

datatype wait_result = Frame buf_id | ThreadExit | Blocked

definition set_pending_sdl_thread_exit :: "bool \<Rightarrow> video stmt" where
  "set_pending_sdl_thread_exit b s =
     (s\<lparr>pending_sdl_thread_exit := b\<rparr>, [Store V_pending_sdl_thread_exit])"

definition wait_test :: "video \<Rightarrow> wait_result \<times> video \<times> event list" where
  "wait_test s =
     (if \<not> frame_available s \<and> \<not> pending_sdl_thread_exit s
      then (Blocked, s, [CondWait frame_available_cond frame_lock])
      else if pending_sdl_thread_exit s
      then (case SDL_UnlockMutex frame_lock s of (s1, t) \<Rightarrow> (ThreadExit, s1, t))
      else (case block
                   [set_ready_to_draw_new_frame False,
                    set_frame_available False,
                    SDL_UnlockMutex frame_lock] s of
              (s1, t) \<Rightarrow> (Frame (front_buffer s1), s1, t)))"

definition sdl_thread_enter :: "video \<Rightarrow> wait_result \<times> video \<times> event list" where
  "sdl_thread_enter s =
     (case block [SDL_LockMutex frame_lock, set_ready_to_draw_new_frame True] s of
        (s1, t1) \<Rightarrow> (case wait_test s1 of (r, s2, t2) \<Rightarrow> (r, s2, t1 @ t2)))"

definition sdl_thread_wake :: "video \<Rightarrow> wait_result \<times> video \<times> event list" where
  "sdl_thread_wake s = wait_test s"

text \<open>
  \<^verbatim>\<open>
  void exit_sdl_thread() {
      SDL_LockMutex(frame_lock);
      pending_sdl_thread_exit = true;
      SDL_CondSignal(frame_available_cond);
      SDL_UnlockMutex(frame_lock);
  }
  \<close>
\<close>

definition exit_sdl_thread :: "video stmt" where
  "exit_sdl_thread =
     block
       [SDL_LockMutex frame_lock,
        set_pending_sdl_thread_exit True,
        SDL_CondSignal frame_available_cond,
        SDL_UnlockMutex frame_lock]"

section \<open>The threads together\<close>

text \<open>
  The emulation thread calls \<open>put_pixel\<close> and \<open>draw_frame\<close>, some thread calls
  \<open>exit_sdl_thread\<close>, and the SDL thread runs \<open>sdl_thread\<close>. A schedule lists who runs
  next; \<open>SdlThread\<close> lets the SDL thread run its next piece (for a thread asleep in
  \<open>SDL_CondWait\<close>: it has been woken, by a signal or spuriously). Where the SDL thread
  stands is \<open>presenter\<close>: before its first wait, asleep in \<open>SDL_CondWait\<close>, past the
  wait with the buffer it uploads, or returned. Past the wait the SDL thread calls
  \<open>process_events\<close>, which on an \<open>SDL_QUIT\<close> event stores true to
  \<open>pending_sdl_thread_exit\<close> (under \<open>event_lock\<close>): \<open>SdlQuitEvent\<close>. A failed
  assertion ends the process, and the run.
\<close>

datatype sdl_pc = NotStarted | InCondWait | Presenting buf_id | Returned

record system =
  shared :: video
  presenter :: sdl_pc

definition init_system :: system where
  "init_system = \<lparr>shared = init_video, presenter = NotStarted\<rparr>"

datatype sched = PutPixel u32 u32 u32 | DrawFrame | ExitSdlThread | SdlThread | SdlQuitEvent

fun after_wait :: "wait_result \<Rightarrow> sdl_pc" where
  "after_wait (Frame b) = Presenting b"
| "after_wait ThreadExit = Returned"
| "after_wait Blocked = InCondWait"

definition sdl_thread_step :: "system \<Rightarrow> system" where
  "sdl_thread_step s =
     (case presenter s of
        Returned \<Rightarrow> s
      | InCondWait \<Rightarrow>
          (case sdl_thread_wake (shared s) of
             (r, v, t) \<Rightarrow> \<lparr>shared = v, presenter = after_wait r\<rparr>)
      | _ \<Rightarrow>
          (case sdl_thread_enter (shared s) of
             (r, v, t) \<Rightarrow> \<lparr>shared = v, presenter = after_wait r\<rparr>))"

fun step :: "sched \<Rightarrow> system \<Rightarrow> fatal + system" where
  "step (PutPixel x y color) s =
     (case put_pixel x y color (shared s) of
        Inl f \<Rightarrow> Inl f
      | Inr v \<Rightarrow> Inr (s\<lparr>shared := v\<rparr>))"
| "step DrawFrame s = Inr (s\<lparr>shared := fst (draw_frame (shared s))\<rparr>)"
| "step ExitSdlThread s = Inr (s\<lparr>shared := fst (exit_sdl_thread (shared s))\<rparr>)"
| "step SdlThread s = Inr (sdl_thread_step s)"
| "step SdlQuitEvent s =
     Inr (s\<lparr>shared := (shared s)\<lparr>pending_sdl_thread_exit :=
            (case presenter s of
               Presenting b \<Rightarrow> True
             | _ \<Rightarrow> pending_sdl_thread_exit (shared s))\<rparr>\<rparr>)"

fun run :: "sched list \<Rightarrow> system \<Rightarrow> fatal + system" where
  "run [] s = Inr s"
| "run (a # as) s = (case step a s of Inl f \<Rightarrow> Inl f | Inr s1 \<Rightarrow> run as s1)"

text \<open>
  What the SDL thread shows: the pixels of the buffer it uploads, when it is past the wait.
\<close>

definition observed :: "system \<Rightarrow> (nat \<Rightarrow> u32) option" where
  "observed s =
     (case presenter s of
        Presenting b \<Rightarrow> Some (render_buffers (shared s) b)
      | _ \<Rightarrow> None)"

text \<open>
  The in-bounds \<open>put_pixel\<close> calls of a schedule, applied in order to a buffer content.
\<close>

fun apply_writes :: "sched list \<Rightarrow> (nat \<Rightarrow> u32) \<Rightarrow> (nat \<Rightarrow> u32)" where
  "apply_writes [] px = px"
| "apply_writes (PutPixel x y color # as) px =
     apply_writes as (if x < 256 \<and> y < 240 then px(unat (256 * y + x) := color) else px)"
| "apply_writes (a # as) px = apply_writes as px"

text \<open>
  A schedule in which no \<open>draw_frame\<close> hands a frame over: each one runs while
  \<open>ready_to_draw_new_frame\<close> is false.
\<close>

fun all_dropped :: "sched list \<Rightarrow> system \<Rightarrow> bool" where
  "all_dropped [] s = True"
| "all_dropped (a # as) s =
     ((if a = DrawFrame then \<not> ready_to_draw_new_frame (shared s) else True) \<and>
      (case step a s of Inl f \<Rightarrow> True | Inr s1 \<Rightarrow> all_dropped as s1))"

section \<open>Input: the key arrays and \<open>handle_ui_keys\<close>\<close>

text \<open>
  \<open>keys\<close> is SDL's keyboard state array (one \<open>Uint8\<close> per scancode, \<open>keys_size\<close>
  entries), \<open>keys_lf\<close> the copy made at the end of the previous \<open>handle_ui_keys\<close>.
  \<^verbatim>\<open>
  #define KEY_PRESSED(i) ( (keys[i]) & (!keys_lf[i]) )
  #define KEY_RELEASED(i) ( (!keys[i]) & (keys_lf[i]) )
  \<close>
  The operands are promoted to \<open>int\<close> and \<open>&\<close> is bitwise; \<open>!\<close> gives 0 or 1. An index
  outside an array is undefined behaviour in C: \<open>None\<close>.
\<close>

definition KEY_PRESSED :: "u8 list \<Rightarrow> u8 list \<Rightarrow> nat \<Rightarrow> u32 option" where
  "KEY_PRESSED ks lf i =
     (if i < length ks \<and> i < length lf
      then Some (ucast (ks ! i) AND (if lf ! i = 0 then 1 else 0))
      else None)"

definition KEY_RELEASED :: "u8 list \<Rightarrow> u8 list \<Rightarrow> nat \<Rightarrow> u32 option" where
  "KEY_RELEASED ks lf i =
     (if i < length ks \<and> i < length lf
      then Some ((if ks ! i = 0 then 1 else 0) AND ucast (lf ! i))
      else None)"

definition truthy :: "u32 option \<Rightarrow> bool" where
  "truthy r = (case r of Some v \<Rightarrow> v \<noteq> 0 | None \<Rightarrow> False)"

record input =
  keys :: "u8 list"
  keys_lf :: "u8 list"
  keys_size :: nat
  show_debugger :: bool
  corrupt_chance :: u32
  reset_pushed :: bool

text \<open>
  The scancodes are constants of SDL's headers, which are not part of the repository: they
  are a parameter. \<open>sdl2_scancodes\<close> has the values of SDL 2's \<open>SDL_scancode.h\<close>.
\<close>

record scancodes =
  SDL_SCANCODE_ESCAPE :: nat
  SDL_SCANCODE_F3 :: nat
  SDL_SCANCODE_F4 :: nat
  SDL_SCANCODE_LALT :: nat
  SDL_SCANCODE_D :: nat
  SDL_SCANCODE_F5 :: nat
  SDL_SCANCODE_F8 :: nat
  SDL_SCANCODE_BACKSPACE :: nat

definition sdl2_scancodes :: scancodes where
  "sdl2_scancodes =
     \<lparr>SDL_SCANCODE_ESCAPE = 41, SDL_SCANCODE_F3 = 60, SDL_SCANCODE_F4 = 61,
      SDL_SCANCODE_LALT = 226, SDL_SCANCODE_D = 7, SDL_SCANCODE_F5 = 62,
      SDL_SCANCODE_F8 = 65, SDL_SCANCODE_BACKSPACE = 42\<rparr>"

text \<open>
  \<^verbatim>\<open>
  void handle_ui_keys() {
      SDL_LockMutex(event_lock);
      if (keys[SDL_SCANCODE_ESCAPE])
          exit(0);
      if (KEY_PRESSED(SDL_SCANCODE_F3)) {
          corrupt_chance += 0x1000; printf("New corrupt chance is %u\n", corrupt_chance); }
      if (KEY_PRESSED(SDL_SCANCODE_F4)) {
          corrupt_chance -= 0x1000; printf("New corrupt chance is %u\n", corrupt_chance); }
      if (keys[SDL_SCANCODE_LALT] && (KEY_PRESSED(SDL_SCANCODE_D))) {
          show_debugger = !show_debugger;
      }
      if (keys[SDL_SCANCODE_F5])
          save_state();
      else if (keys[SDL_SCANCODE_F8])
          load_state();
      handle_rewind(keys[SDL_SCANCODE_BACKSPACE]);
      if (reset_pushed)
          soft_reset();
      SDL_UnlockMutex(event_lock);
      if (keys_size) memcpy(keys_lf, keys, keys_size * sizeof(Uint8));
  }
  \<close>
  \<open>save_state\<close>, \<open>load_state\<close>, \<open>handle_rewind\<close> and \<open>soft_reset\<close> belong to other
  files: a call to one is an event, and what it does to the emulator is not modelled.
  \<open>corrupt_chance\<close> and \<open>reset_pushed\<close> are declared in other files too;
  \<open>corrupt_chance\<close> is taken as a 32-bit unsigned. The function is modelled where all its
  reads and the \<open>memcpy\<close> stay inside the two arrays; elsewhere C leaves it undefined.
\<close>

datatype 'a outcome = Returns 'a | ProcessExit | UndefinedBehaviour

definition reads_in_bounds :: "scancodes \<Rightarrow> input \<Rightarrow> bool" where
  "reads_in_bounds sc s =
     (list_all (\<lambda>i. i < length (keys s) \<and> i < length (keys_lf s))
        [SDL_SCANCODE_ESCAPE sc, SDL_SCANCODE_F3 sc, SDL_SCANCODE_F4 sc,
         SDL_SCANCODE_LALT sc, SDL_SCANCODE_D sc, SDL_SCANCODE_F5 sc,
         SDL_SCANCODE_F8 sc, SDL_SCANCODE_BACKSPACE sc] \<and>
      keys_size s \<le> length (keys s) \<and> keys_size s \<le> length (keys_lf s))"

definition add_corrupt_chance :: "u32 \<Rightarrow> input stmt" where
  "add_corrupt_chance d s = (s\<lparr>corrupt_chance := corrupt_chance s + d\<rparr>, [Store V_corrupt_chance])"

definition sub_corrupt_chance :: "u32 \<Rightarrow> input stmt" where
  "sub_corrupt_chance d s = (s\<lparr>corrupt_chance := corrupt_chance s - d\<rparr>, [Store V_corrupt_chance])"

definition toggle_show_debugger :: "input stmt" where
  "toggle_show_debugger s = (s\<lparr>show_debugger := \<not> show_debugger s\<rparr>, [Store V_show_debugger])"

definition memcpy_keys_lf :: "input stmt" where
  "memcpy_keys_lf s =
     (s\<lparr>keys_lf := take (keys_size s) (keys s) @ drop (keys_size s) (keys_lf s)\<rparr>,
      [Store V_keys_lf])"

definition handle_ui_keys :: "scancodes \<Rightarrow> input \<Rightarrow> input outcome \<times> event list" where
  "handle_ui_keys sc s =
     (if \<not> reads_in_bounds sc s then (UndefinedBehaviour, [])
      else if keys s ! SDL_SCANCODE_ESCAPE sc \<noteq> 0
      then (ProcessExit, [LockMutex event_lock, Call ''exit''])
      else
        (case block
                [SDL_LockMutex event_lock,
                 if_then (\<lambda>s. truthy (KEY_PRESSED (keys s) (keys_lf s) (SDL_SCANCODE_F3 sc)))
                   (block [add_corrupt_chance 0x1000, call ''printf'']),
                 if_then (\<lambda>s. truthy (KEY_PRESSED (keys s) (keys_lf s) (SDL_SCANCODE_F4 sc)))
                   (block [sub_corrupt_chance 0x1000, call ''printf'']),
                 if_then (\<lambda>s. keys s ! SDL_SCANCODE_LALT sc \<noteq> 0 \<and>
                             truthy (KEY_PRESSED (keys s) (keys_lf s) (SDL_SCANCODE_D sc)))
                   toggle_show_debugger,
                 (\<lambda>s. if keys s ! SDL_SCANCODE_F5 sc \<noteq> 0 then call ''save_state'' s
                       else if keys s ! SDL_SCANCODE_F8 sc \<noteq> 0 then call ''load_state'' s
                       else (s, [])),
                 call ''handle_rewind'',
                 if_then reset_pushed (call ''soft_reset''),
                 SDL_UnlockMutex event_lock,
                 if_then (\<lambda>s. keys_size s \<noteq> 0) memcpy_keys_lf] s of
           (s1, t) \<Rightarrow> (Returns s1, t)))"

section \<open>Notions used in the statements\<close>

text \<open>
  Two facts about the shared state that every step keeps: the two pointers name different
  buffers, and a frame is available only while the SDL thread is ready for one.
\<close>

definition handoff_inv :: "video \<Rightarrow> bool" where
  "handoff_inv v =
     (back_buffer v \<noteq> front_buffer v \<and>
      (if frame_available v then ready_to_draw_new_frame v else True))"

text \<open>While a frame is available, the front buffer holds the content \<open>c\<close>.\<close>

definition front_holds :: "(nat \<Rightarrow> u32) \<Rightarrow> video \<Rightarrow> bool" where
  "front_holds c v =
     (back_buffer v \<noteq> front_buffer v \<and>
      (if frame_available v then render_buffers v (front_buffer v) = c else True))"

text \<open>
  Where the SDL thread stands, against the flags: asleep in the wait it is ready; past the
  wait it is not, and the buffer it holds is the front buffer.
\<close>

definition presenter_inv :: "system \<Rightarrow> bool" where
  "presenter_inv s =
     (handoff_inv (shared s) \<and>
      (case presenter s of
         NotStarted \<Rightarrow> \<not> ready_to_draw_new_frame (shared s)
       | InCondWait \<Rightarrow> ready_to_draw_new_frame (shared s)
       | Presenting b \<Rightarrow> \<not> ready_to_draw_new_frame (shared s) \<and> b = front_buffer (shared s)
       | Returned \<Rightarrow> True))"

text \<open>The state a schedule leads to from the initial one, and what the SDL thread shows then.\<close>

definition state_after :: "sched list \<Rightarrow> system" where
  "state_after sched =
     (case run sched init_system of Inl f \<Rightarrow> init_system | Inr s \<Rightarrow> s)"

definition shown :: "sched list \<Rightarrow> (nat \<Rightarrow> u32) option" where
  "shown sched = (case run sched init_system of Inl f \<Rightarrow> None | Inr s \<Rightarrow> observed s)"

definition shown_at :: "sched list \<Rightarrow> nat \<Rightarrow> u32 option" where
  "shown_at sched i = (case shown sched of None \<Rightarrow> None | Some px \<Rightarrow> Some (px i))"

text \<open>
  Three frames, each handed over and picked up. The first writes colour \<open>c\<close> at pixel
  (0, 0), the second writes pixel (1, 0), the third pixel (2, 0).
\<close>

definition three_frames :: "u32 \<Rightarrow> sched list" where
  "three_frames c =
     [SdlThread, PutPixel 0 0 c, DrawFrame, SdlThread,
      SdlThread, PutPixel 1 0 5, DrawFrame, SdlThread,
      SdlThread, PutPixel 2 0 9, DrawFrame, SdlThread]"

text \<open>
  One call of \<open>handle_ui_keys\<close> with SDL's 512 scancodes: Left Alt and D are held, D was
  not held at the previous call.
\<close>

definition alt_d_input :: input where
  "alt_d_input =
     \<lparr>keys = (replicate 512 0)[7 := 1, 226 := 1],
      keys_lf = (replicate 512 0)[226 := 1],
      keys_size = 512, show_debugger = False, corrupt_chance = 0, reset_pushed = False\<rparr>"

text \<open>
  For \<open>handle_ui_keys\<close>: an event list that neither locks nor unlocks \<open>event_lock\<close>
  nor stores to \<open>keys_lf\<close>; a statement that makes only such events and leaves the key
  arrays alone; and the statements between \<open>SDL_LockMutex(event_lock)\<close> (and the test of
  the Escape key) and \<open>SDL_UnlockMutex(event_lock)\<close>.
\<close>

definition quiet :: "event list \<Rightarrow> bool" where
  "quiet t =
     list_all (\<lambda>e. e \<noteq> LockMutex event_lock \<and> e \<noteq> UnlockMutex event_lock \<and>
                   e \<noteq> Store V_keys_lf) t"

definition keeps_keys :: "input stmt \<Rightarrow> bool" where
  "keeps_keys c =
     (\<forall>s. quiet (snd (c s)) \<and> keys (fst (c s)) = keys s \<and>
          keys_lf (fst (c s)) = keys_lf s \<and> keys_size (fst (c s)) = keys_size s)"

definition ui_body :: "scancodes \<Rightarrow> input stmt list" where
  "ui_body sc =
     [if_then (\<lambda>s. truthy (KEY_PRESSED (keys s) (keys_lf s) (SDL_SCANCODE_F3 sc)))
        (block [add_corrupt_chance 0x1000, call ''printf'']),
      if_then (\<lambda>s. truthy (KEY_PRESSED (keys s) (keys_lf s) (SDL_SCANCODE_F4 sc)))
        (block [sub_corrupt_chance 0x1000, call ''printf'']),
      if_then (\<lambda>s. keys s ! SDL_SCANCODE_LALT sc \<noteq> 0 \<and>
                  truthy (KEY_PRESSED (keys s) (keys_lf s) (SDL_SCANCODE_D sc)))
        toggle_show_debugger,
      (\<lambda>s. if keys s ! SDL_SCANCODE_F5 sc \<noteq> 0 then call ''save_state'' s
            else if keys s ! SDL_SCANCODE_F8 sc \<noteq> 0 then call ''load_state'' s
            else (s, [])),
      call ''handle_rewind'',
      if_then reset_pushed (call ''soft_reset'')]"

section \<open>Helper facts\<close>


lemma pixel_index:
  fixes x y :: u32
  assumes "x < 256" "y < 240"
  shows "unat (256 * y + x) = 256 * unat y + unat x"
proof -
  have x: "unat x < 256" using assms(1) by (simp add: word_less_nat_alt)
  have y: "unat y < 240" using assms(2) by (simp add: word_less_nat_alt)
  have "unat (256 * y + x) = (256 * unat y + unat x) mod 2 ^ 32"
    by (simp add: unat_word_ariths mod_add_left_eq)
  also have "\<dots> = 256 * unat y + unat x"
    using x y by simp
  finally show ?thesis .
qed



lemmas stmt_defs = if_then_def SDL_LockMutex_def SDL_UnlockMutex_def SDL_CondSignal_def
  set_frame_available_def set_ready_to_draw_new_frame_def swap_buffers_def
  set_pending_sdl_thread_exit_def call_def

lemma draw_frame_ready:
  "ready_to_draw_new_frame s \<Longrightarrow> draw_frame s =
     (s\<lparr>frame_available := True, back_buffer := front_buffer s, front_buffer := back_buffer s\<rparr>,
      [LockMutex frame_lock, Store V_frame_available, Store V_back_buffer, Store V_front_buffer,
       CondSignal frame_available_cond, UnlockMutex frame_lock])"
  by (simp add: draw_frame_def stmt_defs)

lemma draw_frame_not_ready:
  "\<not> ready_to_draw_new_frame s \<Longrightarrow> draw_frame s = (s, [LockMutex frame_lock, UnlockMutex frame_lock])"
  by (simp add: draw_frame_def stmt_defs)

lemma exit_sdl_thread_eq:
  "exit_sdl_thread s =
     (s\<lparr>pending_sdl_thread_exit := True\<rparr>,
      [LockMutex frame_lock, Store V_pending_sdl_thread_exit,
       CondSignal frame_available_cond, UnlockMutex frame_lock])"
  by (simp add: exit_sdl_thread_def stmt_defs)

lemma wait_test_eq:
  "wait_test s =
     (if pending_sdl_thread_exit s then (ThreadExit, s, [UnlockMutex frame_lock])
      else if frame_available s
      then (Frame (front_buffer s),
            s\<lparr>ready_to_draw_new_frame := False, frame_available := False\<rparr>,
            [Store V_ready_to_draw_new_frame, Store V_frame_available, UnlockMutex frame_lock])
      else (Blocked, s, [CondWait frame_available_cond frame_lock]))"
  by (simp add: wait_test_def stmt_defs)

lemma sdl_thread_enter_eq:
  "sdl_thread_enter s =
     (if pending_sdl_thread_exit s
      then (ThreadExit, s\<lparr>ready_to_draw_new_frame := True\<rparr>,
            [LockMutex frame_lock, Store V_ready_to_draw_new_frame, UnlockMutex frame_lock])
      else if frame_available s
      then (Frame (front_buffer s),
            s\<lparr>ready_to_draw_new_frame := False, frame_available := False\<rparr>,
            [LockMutex frame_lock, Store V_ready_to_draw_new_frame,
             Store V_ready_to_draw_new_frame, Store V_frame_available, UnlockMutex frame_lock])
      else (Blocked, s\<lparr>ready_to_draw_new_frame := True\<rparr>,
            [LockMutex frame_lock, Store V_ready_to_draw_new_frame,
             CondWait frame_available_cond frame_lock]))"
  by (simp add: sdl_thread_enter_def wait_test_eq stmt_defs)

lemma sdl_thread_step_eq:
  "sdl_thread_step s =
    (if presenter s = Returned then s
     else if pending_sdl_thread_exit (shared s)
     then \<lparr>shared = (if presenter s = InCondWait then shared s
                       else (shared s)\<lparr>ready_to_draw_new_frame := True\<rparr>),
           presenter = Returned\<rparr>
     else if frame_available (shared s)
     then \<lparr>shared = (shared s)\<lparr>ready_to_draw_new_frame := False, frame_available := False\<rparr>,
           presenter = Presenting (front_buffer (shared s))\<rparr>
     else \<lparr>shared = (if presenter s = InCondWait then shared s
                       else (shared s)\<lparr>ready_to_draw_new_frame := True\<rparr>),
           presenter = InCondWait\<rparr>)"
  by (cases "presenter s") (simp_all add: sdl_thread_step_def sdl_thread_wake_def wait_test_eq sdl_thread_enter_eq)


lemma step_keeps_pending:
  "step a s = Inr s' \<Longrightarrow> pending_sdl_thread_exit (shared s) \<Longrightarrow> pending_sdl_thread_exit (shared s')"
  by (cases a; cases "ready_to_draw_new_frame (shared s)")
     (auto simp: put_pixel_def draw_frame_ready draw_frame_not_ready exit_sdl_thread_eq
        sdl_thread_step_eq split: if_splits sdl_pc.splits)

lemma step_keeps_Returned:
  "step a s = Inr s' \<Longrightarrow> presenter s = Returned \<Longrightarrow> presenter s' = Returned"
  by (cases a) (auto simp: sdl_thread_step_eq split: sum.splits)

lemma step_pending_presenter:
  "step a s = Inr s' \<Longrightarrow> pending_sdl_thread_exit (shared s) \<Longrightarrow>
     presenter s' = (if a = SdlThread then Returned else presenter s)"
  by (cases a) (auto simp: sdl_thread_step_eq split: sum.splits)

lemma run_pending:
  "run sched s = Inr s' \<Longrightarrow> pending_sdl_thread_exit (shared s) \<Longrightarrow>
     pending_sdl_thread_exit (shared s') \<and>
     presenter s' = (if SdlThread \<in> set sched \<or> presenter s = Returned then Returned else presenter s)"
proof (induction sched arbitrary: s)
  case Nil
  then show ?case by simp
next
  case (Cons a as)
  from Cons.prems obtain s1 where s1: "step a s = Inr s1" and r: "run as s1 = Inr s'"
    by (auto split: sum.splits)
  have p1: "pending_sdl_thread_exit (shared s1)" using step_keeps_pending [OF s1] Cons.prems by simp
  have pr: "presenter s1 = (if a = SdlThread then Returned else presenter s)"
    using step_pending_presenter [OF s1] Cons.prems by simp
  from Cons.IH [OF r p1] pr show ?case by auto
qed


lemma step_handoff_inv:
  "step a s = Inr s' \<Longrightarrow> handoff_inv (shared s) \<Longrightarrow> handoff_inv (shared s')"
  by (cases a; cases "ready_to_draw_new_frame (shared s)")
     (auto simp: handoff_inv_def put_pixel_def draw_frame_ready draw_frame_not_ready
        exit_sdl_thread_eq sdl_thread_step_eq split: if_splits)

lemma run_handoff_inv:
  "run sched s = Inr s' \<Longrightarrow> handoff_inv (shared s) \<Longrightarrow> handoff_inv (shared s')"
proof (induction sched arbitrary: s)
  case Nil
  then show ?case by simp
next
  case (Cons a as)
  from Cons.prems obtain s1 where s1: "step a s = Inr s1" and r: "run as s1 = Inr s'"
    by (auto split: sum.splits)
  show ?case using Cons.IH [OF r step_handoff_inv [OF s1 Cons.prems(2)]] .
qed

lemma init_handoff_inv: "handoff_inv (shared init_system)"
  by (simp add: handoff_inv_def init_system_def init_video_def)

lemma run_append:
  "run (xs @ ys) s = (case run xs s of Inl f \<Rightarrow> Inl f | Inr s1 \<Rightarrow> run ys s1)"
  by (induction xs arbitrary: s) (auto split: sum.splits)

lemma step_front_holds:
  "step a s = Inr s' \<Longrightarrow> a \<noteq> DrawFrame \<Longrightarrow> front_holds c (shared s) \<Longrightarrow> front_holds c (shared s')"
  by (cases a)
     (auto simp: front_holds_def put_pixel_def exit_sdl_thread_eq sdl_thread_step_eq split: if_splits)

lemma consume_front_holds:
  "front_holds c (shared s) \<Longrightarrow> presenter (sdl_thread_step s) = Presenting b \<Longrightarrow>
     render_buffers (shared (sdl_thread_step s)) b = c"
  by (auto simp: front_holds_def sdl_thread_step_eq split: if_splits)

lemma run_front_holds:
  "run (post @ [SdlThread]) s = Inr s2 \<Longrightarrow> DrawFrame \<notin> set post \<Longrightarrow> front_holds c (shared s) \<Longrightarrow>
     presenter s2 = Presenting b \<Longrightarrow> render_buffers (shared s2) b = c"
proof (induction post arbitrary: s)
  case Nil
  then show ?case using consume_front_holds [of c s b] by simp
next
  case (Cons a as)
  from Cons.prems(1) obtain s1 where s1: "step a s = Inr s1"
    and r: "run (as @ [SdlThread]) s1 = Inr s2"
    by (auto split: sum.splits)
  have "front_holds c (shared s1)"
    using step_front_holds [OF s1 _ Cons.prems(3)] Cons.prems(2) by auto
  then show ?case using Cons.IH [OF r] Cons.prems by simp
qed

lemma draw_frame_front_holds:
  "handoff_inv v \<Longrightarrow> front_holds (render_buffers v (back_buffer v)) (fst (draw_frame v))"
  by (cases "ready_to_draw_new_frame v")
     (auto simp: handoff_inv_def front_holds_def draw_frame_ready draw_frame_not_ready split: if_splits)

lemma last_publish_shown:
  assumes "run pre init_system = Inr s1"
    and "run (DrawFrame # post @ [SdlThread]) s1 = Inr s2"
    and "DrawFrame \<notin> set post"
    and "presenter s2 = Presenting b"
  shows "render_buffers (shared s2) b = render_buffers (shared s1) (back_buffer (shared s1))"
proof -
  have inv: "handoff_inv (shared s1)"
    using run_handoff_inv [OF assms(1) init_handoff_inv] .
  have r: "run (post @ [SdlThread]) (s1\<lparr>shared := fst (draw_frame (shared s1))\<rparr>) = Inr s2"
    using assms(2) by simp
  show ?thesis
    using run_front_holds [OF r assms(3) _ assms(4)] draw_frame_front_holds [OF inv] by simp
qed

lemma all_dropped_run:
  "run mid s = Inr s' \<Longrightarrow> all_dropped mid s \<Longrightarrow>
     back_buffer (shared s') = back_buffer (shared s) \<and>
     front_buffer (shared s') = front_buffer (shared s) \<and>
     render_buffers (shared s') (back_buffer (shared s)) =
       apply_writes mid (render_buffers (shared s) (back_buffer (shared s)))"
proof (induction mid arbitrary: s)
  case Nil
  then show ?case by simp
next
  case (Cons a as)
  from Cons.prems(1) obtain s1 where s1: "step a s = Inr s1" and r: "run as s1 = Inr s'"
    by (auto split: sum.splits)
  have d: "all_dropped as s1" using Cons.prems(2) s1 by simp
  have nr: "a = DrawFrame \<Longrightarrow> \<not> ready_to_draw_new_frame (shared s)"
    using Cons.prems(2) by (simp split: if_splits)
  have one: "back_buffer (shared s1) = back_buffer (shared s) \<and>
     front_buffer (shared s1) = front_buffer (shared s) \<and>
     render_buffers (shared s1) (back_buffer (shared s)) =
       apply_writes [a] (render_buffers (shared s) (back_buffer (shared s)))"
    using s1 nr
    by (cases a)
       (auto simp: put_pixel_def draw_frame_not_ready exit_sdl_thread_eq sdl_thread_step_eq
          split: if_splits)
  have ap: "apply_writes (a # as) px = apply_writes as (apply_writes [a] px)" for px
    by (cases a) simp_all
  show ?case using Cons.IH [OF r d] one by (simp add: ap)
qed

lemma next_handoff_shown:
  assumes "ready_to_draw_new_frame (shared s1)"
    and "step DrawFrame s1 = Inr s2"
    and "run mid s2 = Inr s3"
    and "all_dropped mid s2"
    and "ready_to_draw_new_frame (shared s3)"
    and "run [DrawFrame, SdlThread] s3 = Inr s4"
    and "presenter s4 = Presenting b"
  shows "render_buffers (shared s4) b =
           apply_writes mid (render_buffers (shared s1) (front_buffer (shared s1)))"
proof -
  have b2: "back_buffer (shared s2) = front_buffer (shared s1)"
    and c2: "render_buffers (shared s2) = render_buffers (shared s1)"
    using assms(1,2) by (auto simp: draw_frame_ready)
  from all_dropped_run [OF assms(3,4)] b2 c2
  have b3: "back_buffer (shared s3) = front_buffer (shared s1)"
    and c3: "render_buffers (shared s3) (front_buffer (shared s1)) =
             apply_writes mid (render_buffers (shared s1) (front_buffer (shared s1)))"
    by simp_all
  from assms(5,6,7) have "b = back_buffer (shared s3) \<and>
      render_buffers (shared s4) = render_buffers (shared s3)"
    by (auto simp: draw_frame_ready sdl_thread_step_eq split: if_splits)
  then show ?thesis using b3 c3 by simp
qed




lemmas run_defs = state_after_def init_system_def init_video_def put_pixel_def draw_frame_def
  exit_sdl_thread_def stmt_defs sdl_thread_step_def sdl_thread_wake_def sdl_thread_enter_def
  wait_test_def

lemma put_pixel_in_bounds:
  assumes "x < 256" "y < 240"
  shows "put_pixel x y color s =
     Inr (s\<lparr>render_buffers :=
            (render_buffers s)(back_buffer s :=
               (render_buffers s (back_buffer s))(256 * unat y + unat x := color))\<rparr>)"
  using assms by (simp add: put_pixel_def pixel_index)

section \<open>The frame handoff\<close>

text \<open>
  C1: called while \<open>ready_to_draw_new_frame\<close> is true, \<open>draw_frame\<close> sets
  \<open>frame_available\<close>, exchanges the pointers \<open>back_buffer\<close> and \<open>front_buffer\<close>
  without writing a pixel, and signals \<open>frame_available_cond\<close>; the stores and the signal
  all happen between locking and unlocking \<open>frame_lock\<close>.
\<close>

theorem draw_frame_hands_over:
  assumes "ready_to_draw_new_frame s"
  shows "draw_frame s =
           (s\<lparr>frame_available := True, back_buffer := front_buffer s,
              front_buffer := back_buffer s\<rparr>,
            [LockMutex frame_lock, Store V_frame_available, Store V_back_buffer,
             Store V_front_buffer, CondSignal frame_available_cond, UnlockMutex frame_lock])
       \<and> render_buffers (fst (draw_frame s)) = render_buffers s
       \<and> CondSignal frame_available_cond \<in> set (snd (draw_frame s))
       \<and> unprotected frame_lock False (snd (draw_frame s)) = []
       \<and> \<not> holds frame_lock False (snd (draw_frame s))"
  using assms by (simp add: draw_frame_ready)

theorem draw_frame_hands_over_witness:
  "ready_to_draw_new_frame (init_video\<lparr>ready_to_draw_new_frame := True\<rparr>)
   \<and> draw_frame (init_video\<lparr>ready_to_draw_new_frame := True\<rparr>) =
       (init_video\<lparr>ready_to_draw_new_frame := True, frame_available := True,
          back_buffer := Buf1, front_buffer := Buf0\<rparr>,
        [LockMutex frame_lock, Store V_frame_available, Store V_back_buffer,
         Store V_front_buffer, CondSignal frame_available_cond, UnlockMutex frame_lock])"
  using draw_frame_hands_over [of "init_video\<lparr>ready_to_draw_new_frame := True\<rparr>"]
  by (simp add: init_video_def)

text \<open>
  C2: called while \<open>ready_to_draw_new_frame\<close> is false, \<open>draw_frame\<close> only locks and
  unlocks \<open>frame_lock\<close>: the state is the one before (pointers, flags and every pixel, so
  the content of the front buffer too) and the condition variable is not signalled.
\<close>

theorem draw_frame_drops:
  assumes "\<not> ready_to_draw_new_frame s"
  shows "draw_frame s = (s, [LockMutex frame_lock, UnlockMutex frame_lock])
       \<and> CondSignal frame_available_cond \<notin> set (snd (draw_frame s))
       \<and> back_buffer (fst (draw_frame s)) = back_buffer s
       \<and> front_buffer (fst (draw_frame s)) = front_buffer s
       \<and> frame_available (fst (draw_frame s)) = frame_available s
       \<and> ready_to_draw_new_frame (fst (draw_frame s)) = ready_to_draw_new_frame s
       \<and> render_buffers (fst (draw_frame s)) (front_buffer (fst (draw_frame s))) =
           render_buffers s (front_buffer s)"
  using assms by (simp add: draw_frame_not_ready)

theorem draw_frame_drops_witness:
  "\<not> ready_to_draw_new_frame init_video
   \<and> draw_frame init_video = (init_video, [LockMutex frame_lock, UnlockMutex frame_lock])"
  using draw_frame_drops [of init_video]
  by (simp add: init_video_def)

text \<open>
  C3: the wait of \<open>sdl_thread\<close>. Entered from the top of the loop, it locks
  \<open>frame_lock\<close> and first stores true to \<open>ready_to_draw_new_frame\<close>. Then, and again
  after each wake-up: while \<open>frame_available\<close> and \<open>pending_sdl_thread_exit\<close> are both
  false it sleeps in \<open>SDL_CondWait\<close> and the state stays as it is; if
  \<open>pending_sdl_thread_exit\<close> is true it unlocks and returns, whether or not a frame is
  available; otherwise it stores false to both flags, unlocks, and goes on with the
  buffer \<open>front_buffer\<close> points to. Whenever it does not sleep, \<open>frame_lock\<close> is released
  at the end.
\<close>

theorem sdl_thread_wait_phase:
  "sdl_thread_enter s =
     (if pending_sdl_thread_exit s
      then (ThreadExit, s\<lparr>ready_to_draw_new_frame := True\<rparr>,
            [LockMutex frame_lock, Store V_ready_to_draw_new_frame, UnlockMutex frame_lock])
      else if frame_available s
      then (Frame (front_buffer s),
            s\<lparr>ready_to_draw_new_frame := False, frame_available := False\<rparr>,
            [LockMutex frame_lock, Store V_ready_to_draw_new_frame,
             Store V_ready_to_draw_new_frame, Store V_frame_available,
             UnlockMutex frame_lock])
      else (Blocked, s\<lparr>ready_to_draw_new_frame := True\<rparr>,
            [LockMutex frame_lock, Store V_ready_to_draw_new_frame,
             CondWait frame_available_cond frame_lock]))
   \<and> sdl_thread_wake s =
     (if pending_sdl_thread_exit s then (ThreadExit, s, [UnlockMutex frame_lock])
      else if frame_available s
      then (Frame (front_buffer s),
            s\<lparr>ready_to_draw_new_frame := False, frame_available := False\<rparr>,
            [Store V_ready_to_draw_new_frame, Store V_frame_available,
             UnlockMutex frame_lock])
      else (Blocked, s, [CondWait frame_available_cond frame_lock]))
   \<and> (fst (sdl_thread_enter s) \<noteq> Blocked \<longrightarrow>
         \<not> holds frame_lock False (snd (snd (sdl_thread_enter s))))
   \<and> (fst (sdl_thread_wake s) \<noteq> Blocked \<longrightarrow>
         \<not> holds frame_lock True (snd (snd (sdl_thread_wake s))))
   \<and> unprotected frame_lock False (snd (snd (sdl_thread_enter s))) = []
   \<and> unprotected frame_lock True (snd (snd (sdl_thread_wake s))) = []"
  by (simp add: sdl_thread_enter_eq sdl_thread_wake_def wait_test_eq)

theorem sdl_thread_wait_phase_witness:
  "fst (sdl_thread_enter (init_video\<lparr>pending_sdl_thread_exit := True\<rparr>)) = ThreadExit
   \<and> \<not> holds frame_lock False
         (snd (snd (sdl_thread_enter (init_video\<lparr>pending_sdl_thread_exit := True\<rparr>))))
   \<and> fst (sdl_thread_wake (init_video\<lparr>frame_available := True\<rparr>)) = Frame Buf1
   \<and> \<not> holds frame_lock True
         (snd (snd (sdl_thread_wake (init_video\<lparr>frame_available := True\<rparr>))))
   \<and> fst (sdl_thread_enter init_video) = Blocked
   \<and> ready_to_draw_new_frame (fst (snd (sdl_thread_enter init_video)))"
  using sdl_thread_wait_phase [of "init_video\<lparr>pending_sdl_thread_exit := True\<rparr>"]
    sdl_thread_wait_phase [of "init_video\<lparr>frame_available := True\<rparr>"]
    sdl_thread_wait_phase [of init_video]
  by (simp add: init_video_def)

text \<open>
  C4: in every state, so in every reachable one, a step that takes \<open>frame_available\<close>
  from false to true is a \<open>draw_frame\<close> made while \<open>ready_to_draw_new_frame\<close> was true,
  and a step that takes it from true to false is a piece of the SDL thread that ends past
  the wait, holding the frame of \<open>front_buffer\<close>.
\<close>

theorem frame_available_changes:
  assumes "step a s = Inr s'"
  shows "(\<not> frame_available (shared s) \<and> frame_available (shared s') \<longrightarrow>
            a = DrawFrame \<and> ready_to_draw_new_frame (shared s))
       \<and> (frame_available (shared s) \<and> \<not> frame_available (shared s') \<longrightarrow>
            a = SdlThread \<and> presenter s' = Presenting (front_buffer (shared s)))"
proof (cases a)
  case (PutPixel x y c)
  then show ?thesis using assms by (auto simp: put_pixel_def split: if_splits)
next
  case DrawFrame
  then show ?thesis using assms
    by (cases "ready_to_draw_new_frame (shared s)")
       (auto simp: draw_frame_ready draw_frame_not_ready)
next
  case ExitSdlThread
  then show ?thesis using assms by (auto simp: exit_sdl_thread_eq)
next
  case SdlThread
  then show ?thesis using assms by (auto simp: sdl_thread_step_eq split: if_splits)
next
  case SdlQuitEvent
  then show ?thesis using assms by (auto split: sdl_pc.splits)
qed

theorem frame_available_changes_witness:
  "step DrawFrame (state_after [SdlThread]) = Inr (state_after [SdlThread, DrawFrame])
   \<and> \<not> frame_available (shared (state_after [SdlThread]))
   \<and> frame_available (shared (state_after [SdlThread, DrawFrame]))
   \<and> ready_to_draw_new_frame (shared (state_after [SdlThread]))
   \<and> step SdlThread (state_after [SdlThread, DrawFrame]) =
        Inr (state_after [SdlThread, DrawFrame, SdlThread])
   \<and> \<not> frame_available (shared (state_after [SdlThread, DrawFrame, SdlThread]))
   \<and> presenter (state_after [SdlThread, DrawFrame, SdlThread]) = Presenting Buf0"
proof -
  have a: "step DrawFrame (state_after [SdlThread]) = Inr (state_after [SdlThread, DrawFrame])"
    by (simp add: run_defs)
  have b: "step SdlThread (state_after [SdlThread, DrawFrame]) =
        Inr (state_after [SdlThread, DrawFrame, SdlThread])"
    by (simp add: run_defs)
  have c: "\<not> frame_available (shared (state_after [SdlThread]))
     \<and> frame_available (shared (state_after [SdlThread, DrawFrame]))
     \<and> \<not> frame_available (shared (state_after [SdlThread, DrawFrame, SdlThread]))
     \<and> front_buffer (shared (state_after [SdlThread, DrawFrame])) = Buf0"
    by (simp add: run_defs)
  show ?thesis
    using frame_available_changes [OF a] frame_available_changes [OF b] a b c by simp
qed


text \<open>
  C5, as stated, fails. The two schedules \<open>three_frames 7\<close> and \<open>three_frames 8\<close>
  differ only in the colour that the first frame writes at pixel (0, 0). The second
  \<open>draw_frame\<close> is the last one to hand a frame over before the third; after it both
  schedules make the same calls (one \<open>put_pixel\<close>, at (2, 0)). Yet the frame shown after
  the third handoff has the first frame's colour at pixel (0, 0): a \<open>put_pixel\<close> made
  before the last successful \<open>draw_frame\<close> is visible at the next handoff, because the
  pointer swap gives the emulation thread the buffer of the frame before last, as it was.
\<close>

theorem stale_pixel_shown:
  "drop 7 (three_frames 7) = [SdlThread, SdlThread, PutPixel 2 0 9, DrawFrame, SdlThread]
   \<and> drop 7 (three_frames 8) = [SdlThread, SdlThread, PutPixel 2 0 9, DrawFrame, SdlThread]
   \<and> shown_at (three_frames 7) 0 = Some 7
   \<and> shown_at (three_frames 8) 0 = Some 8
   \<and> shown_at (three_frames 7) 0 \<noteq> shown_at (three_frames 8) 0"
  by (simp add: shown_at_def shown_def three_frames_def observed_def
      init_system_def init_video_def put_pixel_def draw_frame_def stmt_defs
      sdl_thread_step_def sdl_thread_wake_def sdl_thread_enter_def wait_test_def)

text \<open>
  C5, amended. (1) In every run from the initial state, when a piece of the SDL thread
  ends past the wait, the buffer it holds has exactly the pixels that the back buffer had
  at the last \<open>draw_frame\<close> call before. (2) A \<open>draw_frame\<close> called while
  \<open>ready_to_draw_new_frame\<close> is false changes nothing, and so do two in a row. (3) After
  a \<open>draw_frame\<close> that hands a frame over, and calls among which no \<open>draw_frame\<close> hands
  one over, the frame picked up at the next handoff is the buffer that was the front
  buffer at the earlier handoff, with the in-bounds \<open>put_pixel\<close> calls made since
  applied in order: a pixel not written since keeps what that buffer held.
\<close>

theorem last_publish_shown_next_handoff:
  "(\<forall>pre post s1 s2 b.
       run pre init_system = Inr s1 \<and>
       run (DrawFrame # post @ [SdlThread]) s1 = Inr s2 \<and>
       DrawFrame \<notin> set post \<and> presenter s2 = Presenting b
       \<longrightarrow> render_buffers (shared s2) b =
             render_buffers (shared s1) (back_buffer (shared s1)))
   \<and> (\<forall>v. \<not> ready_to_draw_new_frame v
       \<longrightarrow> fst (draw_frame v) = v \<and> fst (draw_frame (fst (draw_frame v))) = v)
   \<and> (\<forall>s1 s2 mid s3 s4 b.
       ready_to_draw_new_frame (shared s1) \<and> step DrawFrame s1 = Inr s2 \<and>
       run mid s2 = Inr s3 \<and> all_dropped mid s2 \<and>
       ready_to_draw_new_frame (shared s3) \<and>
       run [DrawFrame, SdlThread] s3 = Inr s4 \<and> presenter s4 = Presenting b
       \<longrightarrow> render_buffers (shared s4) b =
             apply_writes mid (render_buffers (shared s1) (front_buffer (shared s1))))"
proof (intro conjI allI impI)
  fix pre post s1 s2 b
  assume "run pre init_system = Inr s1 \<and>
       run (DrawFrame # post @ [SdlThread]) s1 = Inr s2 \<and>
       DrawFrame \<notin> set post \<and> presenter s2 = Presenting b"
  then show "render_buffers (shared s2) b =
             render_buffers (shared s1) (back_buffer (shared s1))"
    using last_publish_shown [of pre s1 post s2 b] by blast
next
  fix v :: video
  assume "\<not> ready_to_draw_new_frame v"
  then show "fst (draw_frame v) = v" by (simp add: draw_frame_not_ready)
next
  fix v :: video
  assume "\<not> ready_to_draw_new_frame v"
  then show "fst (draw_frame (fst (draw_frame v))) = v" by (simp add: draw_frame_not_ready)
next
  fix s1 s2 mid s3 s4 b
  assume "ready_to_draw_new_frame (shared s1) \<and> step DrawFrame s1 = Inr s2 \<and>
       run mid s2 = Inr s3 \<and> all_dropped mid s2 \<and>
       ready_to_draw_new_frame (shared s3) \<and>
       run [DrawFrame, SdlThread] s3 = Inr s4 \<and> presenter s4 = Presenting b"
  then show "render_buffers (shared s4) b =
             apply_writes mid (render_buffers (shared s1) (front_buffer (shared s1)))"
    using next_handoff_shown [of s1 s2 mid s3 s4 b] by blast
qed

theorem last_publish_shown_next_handoff_witness:
  "run [SdlThread, PutPixel 0 0 7] init_system = Inr (state_after [SdlThread, PutPixel 0 0 7])
   \<and> run (DrawFrame # [PutPixel 3 0 4] @ [SdlThread]) (state_after [SdlThread, PutPixel 0 0 7])
       = Inr (state_after [SdlThread, PutPixel 0 0 7, DrawFrame, PutPixel 3 0 4, SdlThread])
   \<and> presenter (state_after [SdlThread, PutPixel 0 0 7, DrawFrame, PutPixel 3 0 4, SdlThread])
       = Presenting Buf0
   \<and> render_buffers
        (shared (state_after [SdlThread, PutPixel 0 0 7, DrawFrame, PutPixel 3 0 4, SdlThread]))
        Buf0 =
      render_buffers (shared (state_after [SdlThread, PutPixel 0 0 7]))
        (back_buffer (shared (state_after [SdlThread, PutPixel 0 0 7])))
   \<and> \<not> ready_to_draw_new_frame init_video
   \<and> fst (draw_frame (fst (draw_frame init_video))) = init_video
   \<and> all_dropped [SdlThread, PutPixel 1 0 5, DrawFrame, DrawFrame, SdlThread]
        (state_after [SdlThread, PutPixel 0 0 7, DrawFrame])
   \<and> presenter (state_after [SdlThread, PutPixel 0 0 7, DrawFrame,
        SdlThread, PutPixel 1 0 5, DrawFrame, DrawFrame, SdlThread, DrawFrame, SdlThread])
       = Presenting Buf1
   \<and> render_buffers (shared (state_after [SdlThread, PutPixel 0 0 7, DrawFrame,
        SdlThread, PutPixel 1 0 5, DrawFrame, DrawFrame, SdlThread, DrawFrame, SdlThread]))
        Buf1 =
      apply_writes [SdlThread, PutPixel 1 0 5, DrawFrame, DrawFrame, SdlThread]
        (render_buffers (shared (state_after [SdlThread, PutPixel 0 0 7]))
           (front_buffer (shared (state_after [SdlThread, PutPixel 0 0 7]))))"
proof -
  let ?pre = "[SdlThread, PutPixel 0 0 7]"
  let ?s1 = "state_after ?pre"
  let ?s2 = "state_after [SdlThread, PutPixel 0 0 7, DrawFrame, PutPixel 3 0 4, SdlThread]"
  let ?t2 = "state_after [SdlThread, PutPixel 0 0 7, DrawFrame]"
  let ?mid = "[SdlThread, PutPixel 1 0 5, DrawFrame, DrawFrame, SdlThread]"
  let ?t3 = "state_after [SdlThread, PutPixel 0 0 7, DrawFrame,
        SdlThread, PutPixel 1 0 5, DrawFrame, DrawFrame, SdlThread]"
  let ?t4 = "state_after [SdlThread, PutPixel 0 0 7, DrawFrame,
        SdlThread, PutPixel 1 0 5, DrawFrame, DrawFrame, SdlThread, DrawFrame, SdlThread]"
  have a1: "run ?pre init_system = Inr ?s1" by (simp add: run_defs)
  have a2: "run (DrawFrame # [PutPixel 3 0 4] @ [SdlThread]) ?s1 = Inr ?s2"
    by (simp add: run_defs)
  have a3: "DrawFrame \<notin> set [PutPixel 3 0 4]" by simp
  have a4: "presenter ?s2 = Presenting Buf0" by (simp add: run_defs)
  have one: "render_buffers (shared ?s2) Buf0 =
      render_buffers (shared ?s1) (back_buffer (shared ?s1))"
    using last_publish_shown_next_handoff a1 a2 a3 a4 by blast
  have b1: "\<not> ready_to_draw_new_frame init_video" by (simp add: init_video_def)
  have two: "fst (draw_frame (fst (draw_frame init_video))) = init_video"
    using last_publish_shown_next_handoff b1 by blast
  have c1: "ready_to_draw_new_frame (shared ?s1)" by (simp add: run_defs)
  have c2: "step DrawFrame ?s1 = Inr ?t2" by (simp add: run_defs)
  have c3: "run ?mid ?t2 = Inr ?t3" by (simp add: run_defs)
  have c4: "all_dropped ?mid ?t2" by (simp add: run_defs)
  have c5: "ready_to_draw_new_frame (shared ?t3)" by (simp add: run_defs)
  have c6: "run [DrawFrame, SdlThread] ?t3 = Inr ?t4" by (simp add: run_defs)
  have c7: "presenter ?t4 = Presenting Buf1" by (simp add: run_defs)
  have three: "render_buffers (shared ?t4) Buf1 =
      apply_writes ?mid (render_buffers (shared ?s1) (front_buffer (shared ?s1)))"
    using last_publish_shown_next_handoff c1 c2 c3 c4 c5 c6 c7 by blast
  show ?thesis using a1 a2 a4 one b1 two c4 c7 three by blast
qed


section \<open>\<open>put_pixel\<close>\<close>

text \<open>
  C6: \<open>put_pixel\<close> succeeds exactly when \<open>x < 256\<close> and \<open>y < 240\<close> (the arguments are
  unsigned, so they are never below 0), and then writes the colour at cell
  \<open>256 * y + x\<close> of the back buffer; otherwise the assertion fails and nothing is
  returned. At (255, 239) it succeeds and writes cell 61439; at (256, 239) and at
  (255, 240) the assertion fails.
\<close>

theorem put_pixel_bounds:
  "put_pixel x y color s =
     (if 0 \<le> x \<and> x < 256 \<and> 0 \<le> y \<and> y < 240
      then Inr (s\<lparr>render_buffers :=
                  (render_buffers s)(back_buffer s :=
                     (render_buffers s (back_buffer s))(256 * unat y + unat x := color))\<rparr>)
      else Inl AssertionFailed)
   \<and> put_pixel 255 239 color s =
       Inr (s\<lparr>render_buffers :=
              (render_buffers s)(back_buffer s :=
                 (render_buffers s (back_buffer s))(61439 := color))\<rparr>)
   \<and> put_pixel 256 239 color s = Inl AssertionFailed
   \<and> put_pixel 255 240 color s = Inl AssertionFailed"
proof -
  have "put_pixel x y color s =
     (if 0 \<le> x \<and> x < 256 \<and> 0 \<le> y \<and> y < 240
      then Inr (s\<lparr>render_buffers :=
                  (render_buffers s)(back_buffer s :=
                     (render_buffers s (back_buffer s))(256 * unat y + unat x := color))\<rparr>)
      else Inl AssertionFailed)"
    by (simp add: put_pixel_in_bounds) (simp add: put_pixel_def)
  moreover have "put_pixel 255 239 color s =
       Inr (s\<lparr>render_buffers :=
              (render_buffers s)(back_buffer s :=
                 (render_buffers s (back_buffer s))(61439 := color))\<rparr>)"
    by (simp add: put_pixel_def)
  moreover have "put_pixel 256 239 color s = Inl AssertionFailed"
    by (simp add: put_pixel_def)
  moreover have "put_pixel 255 240 color s = Inl AssertionFailed"
    by (simp add: put_pixel_def)
  ultimately show ?thesis by blast
qed

text \<open>
  C10: in every state a run from the initial state reaches, an in-bounds \<open>put_pixel\<close>
  succeeds and writes cell \<open>256 * y + x\<close> of the back buffer, a cell inside the buffer;
  every other cell of the back buffer, the whole front buffer, the two pointers and the
  three flags are as before.
\<close>

theorem put_pixel_frame:
  assumes "run sched init_system = Inr s" and "x < 256" and "y < 240"
  shows "\<exists>v. put_pixel x y color (shared s) = Inr v
     \<and> unat (256 * y + x) = 256 * unat y + unat x
     \<and> 256 * unat y + unat x < 240 * 256
     \<and> render_buffers v (back_buffer (shared s)) (256 * unat y + unat x) = color
     \<and> (\<forall>i. i \<noteq> 256 * unat y + unat x \<longrightarrow>
          render_buffers v (back_buffer (shared s)) i =
          render_buffers (shared s) (back_buffer (shared s)) i)
     \<and> render_buffers v (front_buffer (shared s)) =
         render_buffers (shared s) (front_buffer (shared s))
     \<and> back_buffer v = back_buffer (shared s)
     \<and> front_buffer v = front_buffer (shared s)
     \<and> frame_available v = frame_available (shared s)
     \<and> ready_to_draw_new_frame v = ready_to_draw_new_frame (shared s)
     \<and> pending_sdl_thread_exit v = pending_sdl_thread_exit (shared s)"
proof -
  have d: "back_buffer (shared s) \<noteq> front_buffer (shared s)"
    using run_handoff_inv [OF assms(1) init_handoff_inv] by (simp add: handoff_inv_def)
  have "unat x < 256" "unat y < 240"
    using assms(2,3) by (simp_all add: word_less_nat_alt)
  then have b: "256 * unat y + unat x < 240 * 256" by simp
  show ?thesis
    using d b by (simp add: put_pixel_in_bounds [OF assms(2,3)] pixel_index [OF assms(2,3)])
qed

theorem put_pixel_frame_witness:
  "run [SdlThread, PutPixel 0 0 7, DrawFrame] init_system =
     Inr (state_after [SdlThread, PutPixel 0 0 7, DrawFrame])
   \<and> (3 :: u32) < 256 \<and> (2 :: u32) < 240
   \<and> back_buffer (shared (state_after [SdlThread, PutPixel 0 0 7, DrawFrame])) = Buf1
   \<and> (\<exists>v. put_pixel 3 2 9 (shared (state_after [SdlThread, PutPixel 0 0 7, DrawFrame])) = Inr v
        \<and> render_buffers v Buf1 515 = 9
        \<and> render_buffers v Buf0 =
            render_buffers (shared (state_after [SdlThread, PutPixel 0 0 7, DrawFrame])) Buf0)"
proof -
  let ?s = "state_after [SdlThread, PutPixel 0 0 7, DrawFrame]"
  have a: "run [SdlThread, PutPixel 0 0 7, DrawFrame] init_system = Inr ?s"
    by (simp add: run_defs)
  have b: "(3 :: u32) < 256" "(2 :: u32) < 240" by simp_all
  have c: "back_buffer (shared ?s) = Buf1" "front_buffer (shared ?s) = Buf0"
    by (simp_all add: run_defs)
  from put_pixel_frame [OF a b, of 9] obtain v where
    v: "put_pixel 3 2 9 (shared ?s) = Inr v"
      "render_buffers v (back_buffer (shared ?s)) (256 * unat (2 :: u32) + unat (3 :: u32)) = 9"
      "render_buffers v (front_buffer (shared ?s)) =
         render_buffers (shared ?s) (front_buffer (shared ?s))"
    by blast
  have "render_buffers v Buf1 515 = 9" using v(2) c by simp
  moreover have "render_buffers v Buf0 = render_buffers (shared ?s) Buf0" using v(3) c by simp
  ultimately show ?thesis using a b c(1) v(1) by blast
qed

section \<open>Shutdown\<close>

text \<open>
  C9: \<open>exit_sdl_thread\<close> stores true to \<open>pending_sdl_thread_exit\<close> and signals
  \<open>frame_available_cond\<close>, the condition variable the SDL thread sleeps on and
  \<open>draw_frame\<close> signals, both between locking and unlocking \<open>frame_lock\<close>. From every
  state in which the SDL thread sleeps in \<open>SDL_CondWait\<close>: after \<open>exit_sdl_thread\<close> the
  thread's next piece returns from \<open>sdl_thread\<close>, with no \<open>draw_frame\<close> needed; and
  whatever the threads do after \<open>exit_sdl_thread\<close>, once the SDL thread has run it has
  returned and stays so, and until then it still sleeps in the same wait: it never starts
  another one.
\<close>

theorem exit_sdl_thread_ends_wait:
  "exit_sdl_thread v =
     (v\<lparr>pending_sdl_thread_exit := True\<rparr>,
      [LockMutex frame_lock, Store V_pending_sdl_thread_exit,
       CondSignal frame_available_cond, UnlockMutex frame_lock])
   \<and> unprotected frame_lock False (snd (exit_sdl_thread v)) = []
   \<and> (\<not> frame_available v \<and> \<not> pending_sdl_thread_exit v \<longrightarrow>
        snd (snd (sdl_thread_wake v)) = [CondWait frame_available_cond frame_lock])
   \<and> (presenter s = InCondWait \<longrightarrow>
        run [ExitSdlThread, SdlThread] s =
          Inr \<lparr>shared = (shared s)\<lparr>pending_sdl_thread_exit := True\<rparr>, presenter = Returned\<rparr>)
   \<and> (\<forall>sched s'. presenter s = InCondWait \<and> run (ExitSdlThread # sched) s = Inr s'
        \<longrightarrow> pending_sdl_thread_exit (shared s') \<and>
            presenter s' = (if SdlThread \<in> set sched then Returned else InCondWait))"
proof -
  have c1: "exit_sdl_thread v =
     (v\<lparr>pending_sdl_thread_exit := True\<rparr>,
      [LockMutex frame_lock, Store V_pending_sdl_thread_exit,
       CondSignal frame_available_cond, UnlockMutex frame_lock])"
    by (rule exit_sdl_thread_eq)
  have c2: "unprotected frame_lock False (snd (exit_sdl_thread v)) = []"
    by (simp add: exit_sdl_thread_eq)
  have c3: "\<not> frame_available v \<and> \<not> pending_sdl_thread_exit v \<longrightarrow>
        snd (snd (sdl_thread_wake v)) = [CondWait frame_available_cond frame_lock]"
    by (simp add: sdl_thread_wake_def wait_test_eq)
  have c4: "presenter s = InCondWait \<longrightarrow>
        run [ExitSdlThread, SdlThread] s =
          Inr \<lparr>shared = (shared s)\<lparr>pending_sdl_thread_exit := True\<rparr>, presenter = Returned\<rparr>"
    by (simp add: exit_sdl_thread_eq sdl_thread_step_eq)
  have c5: "pending_sdl_thread_exit (shared s') \<and>
            presenter s' = (if SdlThread \<in> set sched then Returned else InCondWait)"
    if h: "presenter s = InCondWait \<and> run (ExitSdlThread # sched) s = Inr s'"
    for sched s'
  proof -
    let ?s1 = "s\<lparr>shared := (shared s)\<lparr>pending_sdl_thread_exit := True\<rparr>\<rparr>"
    from h have r: "run sched ?s1 = Inr s'" by (simp add: exit_sdl_thread_eq)
    have p: "pending_sdl_thread_exit (shared ?s1)" by simp
    from run_pending [OF r p] h show ?thesis by simp
  qed
  from c1 c2 c3 c4 c5 show ?thesis by blast
qed

theorem exit_sdl_thread_ends_wait_witness:
  "presenter (state_after [SdlThread]) = InCondWait
   \<and> run [ExitSdlThread, SdlThread] (state_after [SdlThread]) =
       Inr (state_after [SdlThread, ExitSdlThread, SdlThread])
   \<and> presenter (state_after [SdlThread, ExitSdlThread, SdlThread]) = Returned
   \<and> run (ExitSdlThread # [PutPixel 1 1 1, SdlThread, DrawFrame, SdlThread])
        (state_after [SdlThread]) =
       Inr (state_after [SdlThread, ExitSdlThread, PutPixel 1 1 1, SdlThread, DrawFrame, SdlThread])
   \<and> presenter
        (state_after [SdlThread, ExitSdlThread, PutPixel 1 1 1, SdlThread, DrawFrame, SdlThread])
       = Returned
   \<and> \<not> frame_available init_video \<and> \<not> pending_sdl_thread_exit init_video
   \<and> snd (snd (sdl_thread_wake init_video)) = [CondWait frame_available_cond frame_lock]"
proof -
  let ?s = "state_after [SdlThread]"
  let ?sched = "[PutPixel 1 1 1, SdlThread, DrawFrame, SdlThread]"
  let ?s' = "state_after [SdlThread, ExitSdlThread, PutPixel 1 1 1, SdlThread, DrawFrame, SdlThread]"
  have a: "presenter ?s = InCondWait" by (simp add: run_defs)
  have b: "run (ExitSdlThread # ?sched) ?s = Inr ?s'" by (simp add: run_defs)
  have c: "run [ExitSdlThread, SdlThread] ?s =
       Inr (state_after [SdlThread, ExitSdlThread, SdlThread])" by (simp add: run_defs)
  have d: "\<not> frame_available init_video \<and> \<not> pending_sdl_thread_exit init_video"
    by (simp add: init_video_def)
  note t = exit_sdl_thread_ends_wait [of init_video ?s]
  from t d have w: "snd (snd (sdl_thread_wake init_video)) =
      [CondWait frame_available_cond frame_lock]" by blast
  from t a have "run [ExitSdlThread, SdlThread] ?s =
      Inr \<lparr>shared = (shared ?s)\<lparr>pending_sdl_thread_exit := True\<rparr>, presenter = Returned\<rparr>"
    by blast
  with c have e: "presenter (state_after [SdlThread, ExitSdlThread, SdlThread]) = Returned"
    by simp
  from t a b have "presenter ?s' = (if SdlThread \<in> set ?sched then Returned else InCondWait)"
    by blast
  then have f: "presenter ?s' = Returned" by simp
  show ?thesis using a b c d e f w by blast
qed


lemma block_append:
  "block (xs @ ys) s =
     (case block xs s of (s1, t1) \<Rightarrow> (case block ys s1 of (s2, t2) \<Rightarrow> (s2, t1 @ t2)))"
  by (induction xs arbitrary: s) (auto split: prod.splits)

lemma keeps_keys_block:
  "list_all keeps_keys cs \<Longrightarrow> keeps_keys (block cs)"
proof (induction cs)
  case Nil
  then show ?case by (simp add: keeps_keys_def quiet_def)
next
  case (Cons c cs)
  then have c: "keeps_keys c" and cs: "keeps_keys (block cs)" by simp_all
  show ?case
    unfolding keeps_keys_def
  proof (intro allI)
    fix s
    obtain s1 t1 where 1: "c s = (s1, t1)" by (cases "c s")
    obtain s2 t2 where 2: "block cs s1 = (s2, t2)" by (cases "block cs s1")
    from c 1 have q1: "quiet t1 \<and> keys s1 = keys s \<and> keys_lf s1 = keys_lf s \<and> keys_size s1 = keys_size s"
      by (auto simp: keeps_keys_def dest: spec [of _ s])
    from cs 2 have q2: "quiet t2 \<and> keys s2 = keys s1 \<and> keys_lf s2 = keys_lf s1 \<and> keys_size s2 = keys_size s1"
      by (auto simp: keeps_keys_def dest: spec [of _ s1])
    from q1 q2 show "quiet (snd (block (c # cs) s)) \<and>
         keys (fst (block (c # cs) s)) = keys s \<and>
         keys_lf (fst (block (c # cs) s)) = keys_lf s \<and>
         keys_size (fst (block (c # cs) s)) = keys_size s"
      by (simp add: 1 2 quiet_def)
  qed
qed

lemma keeps_keys_if_then: "keeps_keys c \<Longrightarrow> keeps_keys (if_then b c)"
  by (simp add: keeps_keys_def if_then_def quiet_def)

lemma keeps_keys_ui_body: "keeps_keys (block (ui_body sc))"
proof -
  have 1: "keeps_keys (call f)" for f :: string
    by (simp add: keeps_keys_def call_def quiet_def)
  have 2: "keeps_keys (add_corrupt_chance d)" "keeps_keys (sub_corrupt_chance d)"
    "keeps_keys toggle_show_debugger" for d
    by (simp_all add: keeps_keys_def add_corrupt_chance_def sub_corrupt_chance_def
        toggle_show_debugger_def quiet_def)
  have 3: "keeps_keys (\<lambda>s. if keys s ! SDL_SCANCODE_F5 sc \<noteq> 0 then call ''save_state'' s
            else if keys s ! SDL_SCANCODE_F8 sc \<noteq> 0 then call ''load_state'' s
            else (s, []))"
    by (simp add: keeps_keys_def call_def quiet_def)
  show ?thesis
    unfolding ui_body_def
    by (rule keeps_keys_block) (simp add: 1 2 3 keeps_keys_if_then keeps_keys_block)
qed

lemma unprotected_quiet:
  "quiet t \<Longrightarrow> unprotected event_lock True (t @ r) = unprotected event_lock True r"
  by (induction t) (simp_all add: quiet_def)

lemma count_quiet: "quiet t \<Longrightarrow> count_list t (Store V_keys_lf) = 0"
  by (induction t) (simp_all add: quiet_def)

lemma handle_ui_keys_returns:
  assumes "reads_in_bounds sc s" and "keys s ! SDL_SCANCODE_ESCAPE sc = 0"
    and "keys_size s \<noteq> 0"
  shows "handle_ui_keys sc s =
     (Returns ((fst (block (ui_body sc) s))
        \<lparr>keys_lf := take (keys_size s) (keys s) @ drop (keys_size s) (keys_lf s)\<rparr>),
      LockMutex event_lock # snd (block (ui_body sc) s) @
        [UnlockMutex event_lock, Store V_keys_lf])"
proof -
  obtain s1 t1 where b: "block (ui_body sc) s = (s1, t1)" by (cases "block (ui_body sc) s")
  from keeps_keys_ui_body [of sc] b
  have k: "keys s1 = keys s \<and> keys_lf s1 = keys_lf s \<and> keys_size s1 = keys_size s"
    by (auto simp: keeps_keys_def dest: spec [of _ s])
  have "handle_ui_keys sc s =
     (case block ([SDL_LockMutex event_lock] @ ui_body sc @
          [SDL_UnlockMutex event_lock, if_then (\<lambda>s. keys_size s \<noteq> 0) memcpy_keys_lf]) s of
        (s1, t) \<Rightarrow> (Returns s1, t))"
    using assms(1,2) by (simp add: handle_ui_keys_def ui_body_def)
  also have "\<dots> = (Returns (s1\<lparr>keys_lf := take (keys_size s) (keys s) @ drop (keys_size s) (keys_lf s)\<rparr>),
      LockMutex event_lock # t1 @ [UnlockMutex event_lock, Store V_keys_lf])"
    using k assms(3)
    by (simp add: block_append b SDL_LockMutex_def SDL_UnlockMutex_def if_then_def
        memcpy_keys_lf_def)
  finally show ?thesis by (simp add: b)
qed

section \<open>Input edges\<close>

text \<open>
  C7: for an index inside two arrays of the same length whose entries are all 0 or 1,
  \<open>KEY_PRESSED\<close> is non-zero exactly when \<open>held[i]\<close> is set and \<open>lastFrame[i]\<close> is not,
  and \<open>KEY_RELEASED\<close> is non-zero exactly when \<open>held[i]\<close> is not set and
  \<open>lastFrame[i]\<close> is. With \<open>lastFrame = [1,0,1]\<close> and \<open>held = [1,1,0]\<close>: index 1 is
  pressed, index 2 is released, index 0 is neither.
\<close>

theorem key_edges:
  assumes "i < length held" and "length lastFrame = length held"
    and "\<forall>v\<in>set held. v = 0 \<or> v = 1" and "\<forall>v\<in>set lastFrame. v = 0 \<or> v = 1"
  shows "truthy (KEY_PRESSED held lastFrame i) = (held ! i \<noteq> 0 \<and> lastFrame ! i = 0)
       \<and> truthy (KEY_RELEASED held lastFrame i) = (held ! i = 0 \<and> lastFrame ! i \<noteq> 0)
       \<and> truthy (KEY_PRESSED [1, 1, 0] [1, 0, 1] 1)
       \<and> \<not> truthy (KEY_RELEASED [1, 1, 0] [1, 0, 1] 1)
       \<and> truthy (KEY_RELEASED [1, 1, 0] [1, 0, 1] 2)
       \<and> \<not> truthy (KEY_PRESSED [1, 1, 0] [1, 0, 1] 2)
       \<and> \<not> truthy (KEY_PRESSED [1, 1, 0] [1, 0, 1] 0)
       \<and> \<not> truthy (KEY_RELEASED [1, 1, 0] [1, 0, 1] 0)"
proof -
  have h: "held ! i = 0 \<or> held ! i = 1"
    using assms(1,3) nth_mem by blast
  have l: "lastFrame ! i = 0 \<or> lastFrame ! i = 1"
    using assms(1,2,4) nth_mem [of i lastFrame] by auto
  have p: "truthy (KEY_PRESSED held lastFrame i) = (held ! i \<noteq> 0 \<and> lastFrame ! i = 0)"
    using h l assms(1,2) by (auto simp: truthy_def KEY_PRESSED_def)
  have r: "truthy (KEY_RELEASED held lastFrame i) = (held ! i = 0 \<and> lastFrame ! i \<noteq> 0)"
    using h l assms(1,2) by (auto simp: truthy_def KEY_RELEASED_def)
  have c: "truthy (KEY_PRESSED [1, 1, 0] [1, 0, 1] 1)
       \<and> \<not> truthy (KEY_RELEASED [1, 1, 0] [1, 0, 1] 1)
       \<and> truthy (KEY_RELEASED [1, 1, 0] [1, 0, 1] 2)
       \<and> \<not> truthy (KEY_PRESSED [1, 1, 0] [1, 0, 1] 2)
       \<and> \<not> truthy (KEY_PRESSED [1, 1, 0] [1, 0, 1] 0)
       \<and> \<not> truthy (KEY_RELEASED [1, 1, 0] [1, 0, 1] 0)"
    by (simp add: truthy_def KEY_PRESSED_def KEY_RELEASED_def)
  from p r c show ?thesis by blast
qed

theorem key_edges_witness:
  "(1 :: nat) < length [1, 1, 0 :: u8]
   \<and> length [1, 0, 1 :: u8] = length [1, 1, 0 :: u8]
   \<and> truthy (KEY_PRESSED [1, 1, 0] [1, 0, 1] 1) = ([1, 1, 0 :: u8] ! 1 \<noteq> 0 \<and> [1, 0, 1 :: u8] ! 1 = 0)
   \<and> truthy (KEY_RELEASED [1, 1, 0] [1, 0, 1] 1) = ([1, 1, 0 :: u8] ! 1 = 0 \<and> [1, 0, 1 :: u8] ! 1 \<noteq> 0)
   \<and> truthy (KEY_PRESSED [1, 1, 0] [1, 0, 1] 1)"
proof -
  have a: "(1 :: nat) < length [1, 1, 0 :: u8]" by simp
  have b: "length [1, 0, 1 :: u8] = length [1, 1, 0 :: u8]" by simp
  have c: "\<forall>v\<in>set [1, 1, 0 :: u8]. v = 0 \<or> v = 1" by simp
  have d: "\<forall>v\<in>set [1, 0, 1 :: u8]. v = 0 \<or> v = 1" by simp
  from key_edges [OF a b c d] a b show ?thesis by blast
qed

text \<open>
  C8: the code does not do this. A call of \<open>handle_ui_keys\<close> that returns copies
  \<open>keys\<close> to \<open>keys_lf\<close> once, but as its last action, after it has unlocked
  \<open>event_lock\<close>: the store to \<open>keys_lf\<close> is the one event of the call made without the
  lock, and the edge reads before it are in a critical section that has ended.
\<close>

theorem handle_ui_keys_commit_outside_lock:
  assumes "reads_in_bounds sc s" and "keys s ! SDL_SCANCODE_ESCAPE sc = 0"
    and "keys_size s \<noteq> 0"
  shows "unprotected event_lock False (snd (handle_ui_keys sc s)) = [Store V_keys_lf]
       \<and> count_list (snd (handle_ui_keys sc s)) (Store V_keys_lf) = 1
       \<and> last (snd (handle_ui_keys sc s)) = Store V_keys_lf
       \<and> last (butlast (snd (handle_ui_keys sc s))) = UnlockMutex event_lock
       \<and> (\<exists>s'. fst (handle_ui_keys sc s) = Returns s' \<and>
            keys_lf s' = take (keys_size s) (keys s) @ drop (keys_size s) (keys_lf s))"
proof -
  have q: "quiet (snd (block (ui_body sc) s))"
    using keeps_keys_ui_body [of sc] by (simp add: keeps_keys_def)
  show ?thesis
    using q by (simp add: handle_ui_keys_returns [OF assms] unprotected_quiet count_quiet
      butlast_append)
qed

theorem handle_ui_keys_commit_outside_lock_witness:
  "reads_in_bounds sdl2_scancodes alt_d_input
   \<and> keys alt_d_input ! SDL_SCANCODE_ESCAPE sdl2_scancodes = 0
   \<and> keys_size alt_d_input \<noteq> 0
   \<and> snd (handle_ui_keys sdl2_scancodes alt_d_input) =
       [LockMutex event_lock, Store V_show_debugger, Call ''handle_rewind'',
        UnlockMutex event_lock, Store V_keys_lf]
   \<and> unprotected event_lock False (snd (handle_ui_keys sdl2_scancodes alt_d_input)) =
       [Store V_keys_lf]"
proof -
  have a: "reads_in_bounds sdl2_scancodes alt_d_input"
    by (simp add: reads_in_bounds_def sdl2_scancodes_def alt_d_input_def)
  have b: "keys alt_d_input ! SDL_SCANCODE_ESCAPE sdl2_scancodes = 0"
    by (simp add: sdl2_scancodes_def alt_d_input_def)
  have c: "keys_size alt_d_input \<noteq> 0"
    by (simp add: alt_d_input_def)
  have d: "snd (handle_ui_keys sdl2_scancodes alt_d_input) =
       [LockMutex event_lock, Store V_show_debugger, Call ''handle_rewind'',
        UnlockMutex event_lock, Store V_keys_lf]"
    by (simp add: handle_ui_keys_def reads_in_bounds_def sdl2_scancodes_def alt_d_input_def
        stmt_defs truthy_def KEY_PRESSED_def toggle_show_debugger_def memcpy_keys_lf_def)
  from handle_ui_keys_commit_outside_lock [OF a b c] a b c d show ?thesis by blast
qed


section \<open>Further facts about the handoff\<close>

lemma step_presenter_inv:
  "step a s = Inr s' \<Longrightarrow> presenter_inv s \<Longrightarrow> presenter_inv s'"
  by (cases a; cases "ready_to_draw_new_frame (shared s)"; cases "presenter s")
     (auto simp: presenter_inv_def handoff_inv_def put_pixel_def draw_frame_ready
        draw_frame_not_ready exit_sdl_thread_eq sdl_thread_step_eq split: if_splits)

lemma run_presenter_inv:
  "run sched s = Inr s' \<Longrightarrow> presenter_inv s \<Longrightarrow> presenter_inv s'"
proof (induction sched arbitrary: s)
  case Nil
  then show ?case by simp
next
  case (Cons a as)
  from Cons.prems obtain s1 where s1: "step a s = Inr s1" and r: "run as s1 = Inr s'"
    by (auto split: sum.splits)
  show ?case using Cons.IH [OF r step_presenter_inv [OF s1 Cons.prems(2)]] .
qed

lemma init_presenter_inv: "presenter_inv init_system"
  by (simp add: presenter_inv_def handoff_inv_def init_system_def init_video_def)

text \<open>
  In every state a run from the initial state reaches, \<open>back_buffer\<close> and
  \<open>front_buffer\<close> point to different buffers, and \<open>frame_available\<close> is true only
  while \<open>ready_to_draw_new_frame\<close> is.
\<close>

theorem buffers_distinct:
  assumes "run sched init_system = Inr s"
  shows "back_buffer (shared s) \<noteq> front_buffer (shared s)
       \<and> (frame_available (shared s) \<longrightarrow> ready_to_draw_new_frame (shared s))"
  using run_handoff_inv [OF assms init_handoff_inv] by (simp add: handoff_inv_def)

theorem buffers_distinct_witness:
  "run [SdlThread, PutPixel 0 0 7, DrawFrame] init_system =
     Inr (state_after [SdlThread, PutPixel 0 0 7, DrawFrame])
   \<and> back_buffer (shared (state_after [SdlThread, PutPixel 0 0 7, DrawFrame])) \<noteq>
       front_buffer (shared (state_after [SdlThread, PutPixel 0 0 7, DrawFrame]))
   \<and> frame_available (shared (state_after [SdlThread, PutPixel 0 0 7, DrawFrame]))
   \<and> ready_to_draw_new_frame (shared (state_after [SdlThread, PutPixel 0 0 7, DrawFrame]))"
proof -
  let ?s = "state_after [SdlThread, PutPixel 0 0 7, DrawFrame]"
  have a: "run [SdlThread, PutPixel 0 0 7, DrawFrame] init_system = Inr ?s"
    by (simp add: run_defs)
  have b: "frame_available (shared ?s)" by (simp add: run_defs)
  from buffers_distinct [OF a] a b show ?thesis by blast
qed

text \<open>
  While the SDL thread is past the wait (it uploads \<open>front_buffer\<close> only then, outside the
  lock), no call of another thread changes \<open>front_buffer\<close> or a pixel of the buffer it
  points to: \<open>put_pixel\<close> writes the other buffer and \<open>draw_frame\<close> drops its frame. The
  buffer the thread left the wait with is the one it uploads.
\<close>

theorem presenting_stable:
  assumes "run sched init_system = Inr s" and "presenter s = Presenting b"
    and "a \<noteq> SdlThread" and "step a s = Inr s'"
  shows "b = front_buffer (shared s)
       \<and> presenter s' = Presenting b
       \<and> front_buffer (shared s') = b
       \<and> render_buffers (shared s') b = render_buffers (shared s) b"
proof -
  have "presenter_inv s" using run_presenter_inv [OF assms(1) init_presenter_inv] .
  then have i: "\<not> ready_to_draw_new_frame (shared s)" "b = front_buffer (shared s)"
    "back_buffer (shared s) \<noteq> front_buffer (shared s)"
    using assms(2) by (simp_all add: presenter_inv_def handoff_inv_def)
  show ?thesis
    using assms(2,3,4) i
    by (cases a)
       (auto simp: put_pixel_def draw_frame_not_ready exit_sdl_thread_eq split: if_splits)
qed

theorem presenting_stable_witness:
  "run [SdlThread, PutPixel 0 0 7, DrawFrame, SdlThread] init_system =
     Inr (state_after [SdlThread, PutPixel 0 0 7, DrawFrame, SdlThread])
   \<and> presenter (state_after [SdlThread, PutPixel 0 0 7, DrawFrame, SdlThread]) = Presenting Buf0
   \<and> step DrawFrame (state_after [SdlThread, PutPixel 0 0 7, DrawFrame, SdlThread]) =
       Inr (state_after [SdlThread, PutPixel 0 0 7, DrawFrame, SdlThread, DrawFrame])
   \<and> front_buffer (shared (state_after [SdlThread, PutPixel 0 0 7, DrawFrame, SdlThread, DrawFrame]))
       = Buf0
   \<and> render_buffers
        (shared (state_after [SdlThread, PutPixel 0 0 7, DrawFrame, SdlThread, DrawFrame])) Buf0 =
      render_buffers (shared (state_after [SdlThread, PutPixel 0 0 7, DrawFrame, SdlThread])) Buf0"
proof -
  let ?s = "state_after [SdlThread, PutPixel 0 0 7, DrawFrame, SdlThread]"
  let ?s' = "state_after [SdlThread, PutPixel 0 0 7, DrawFrame, SdlThread, DrawFrame]"
  have a: "run [SdlThread, PutPixel 0 0 7, DrawFrame, SdlThread] init_system = Inr ?s"
    by (simp add: run_defs)
  have b: "presenter ?s = Presenting Buf0" by (simp add: run_defs)
  have c: "DrawFrame \<noteq> SdlThread" by simp
  have d: "step DrawFrame ?s = Inr ?s'" by (simp add: run_defs)
  from presenting_stable [OF a b c d] a b d show ?thesis by blast
qed

end
